theory Spec2Isabelle
  imports Complex_Main
begin

section \<open>The web tier: the trigger-token check and the three trigger endpoints\<close>

text \<open>
  The handlers are Next.js route handlers (\<^verbatim>\<open>export async function POST(req: Request)\<close>).
  What they use of the platform is modelled as data:
  \<^item> \<^verbatim>\<open>req.headers.get(name)\<close> is a partial map from the header's name to its value
    (\<^verbatim>\<open>null\<close> is \<open>None\<close>);
  \<^item> \<^verbatim>\<open>process.env.TRIGGER_TOKEN\<close> is a \<open>string option\<close> (\<^verbatim>\<open>undefined\<close> is \<open>None\<close>),
    passed to the function as a parameter;
  \<^item> \<^verbatim>\<open>req.json()\<close> consumes the body: the request carries what the platform's parse of
    its body settles to (\<open>Inl\<close> a rejection, for an absent or malformed body; \<open>Inr\<close> the
    parsed value) and the \<^verbatim>\<open>bodyUsed\<close> flag the call sets;
  \<^item> a handler returns the response it resolves to, or \<open>Inl\<close> the exception it rejects with,
    together with the request as it leaves it.
\<close>

subsection \<open>JavaScript values and \<^verbatim>\<open>JSON.stringify\<close>\<close>

text \<open>
  Numbers are a type parameter \<open>'n\<close>: the engine's Number type. The text that
  \<^verbatim>\<open>JSON.stringify\<close> writes for a Number (its \<^verbatim>\<open>Number::toString\<close> when finite, \<^verbatim>\<open>null\<close>
  otherwise) is the engine's too and is the parameter \<open>num\<close> of the serializer.
  A string is a list of code units; an object lists its own properties in enumeration order.
\<close>

datatype 'n js_value =
    JUndefined
  | JNull
  | JBoolean bool
  | JNumber 'n
  | JString string
  | JArray "'n js_value list"
  | JObject "(string \<times> 'n js_value) list"

datatype js_error = TypeError | SyntaxError

definition hex_digit :: "nat \<Rightarrow> char" where
  "hex_digit d = (''0123456789abcdef'') ! (d mod 16)"

text \<open>The escape of one code unit in QuoteJSONString (ECMA-262, 25.5.2.3): the two-character
  escapes of its table, \<^verbatim>\<open>\u00XX\<close> for the other control characters, the unit itself
  otherwise.\<close>

definition quote_code_unit :: "char \<Rightarrow> string" where
  "quote_code_unit c =
     (if c = CHR 0x08 then [CHR 0x5C, CHR ''b'']
      else if c = CHR 0x09 then [CHR 0x5C, CHR ''t'']
      else if c = CHR 0x0A then [CHR 0x5C, CHR ''n'']
      else if c = CHR 0x0C then [CHR 0x5C, CHR ''f'']
      else if c = CHR 0x0D then [CHR 0x5C, CHR ''r'']
      else if c = CHR 0x22 then [CHR 0x5C, CHR 0x22]
      else if c = CHR 0x5C then [CHR 0x5C, CHR 0x5C]
      else if (of_char c :: nat) < 32
        then [CHR 0x5C, CHR ''u'', CHR ''0'', CHR ''0'',
              hex_digit ((of_char c :: nat) div 16), hex_digit (of_char c :: nat)]
      else [c])"

definition QuoteJSONString :: "string \<Rightarrow> string" where
  "QuoteJSONString s = CHR 0x22 # concat (map quote_code_unit s) @ [CHR 0x22]"

fun join :: "string \<Rightarrow> string list \<Rightarrow> string" where
  "join sep [] = []"
| "join sep [x] = x"
| "join sep (x # y # ys) = x @ sep @ join sep (y # ys)"

text \<open>SerializeJSONProperty, SerializeJSONArray and SerializeJSONObject (ECMA-262, 25.5.2):
  \<^verbatim>\<open>undefined\<close> serializes to \<^verbatim>\<open>undefined\<close> (\<open>None\<close>); an array writes \<^verbatim>\<open>null\<close> for such an
  element; an object leaves such a property out.\<close>

fun SerializeJSONProperty :: "('n \<Rightarrow> string) \<Rightarrow> 'n js_value \<Rightarrow> string option"
  and SerializeJSONArray :: "('n \<Rightarrow> string) \<Rightarrow> 'n js_value list \<Rightarrow> string list"
  and SerializeJSONObject :: "('n \<Rightarrow> string) \<Rightarrow> (string \<times> 'n js_value) list \<Rightarrow> string list"
where
  "SerializeJSONProperty num JUndefined = None"
| "SerializeJSONProperty num JNull = Some ''null''"
| "SerializeJSONProperty num (JBoolean b) = Some (if b then ''true'' else ''false'')"
| "SerializeJSONProperty num (JNumber n) = Some (num n)"
| "SerializeJSONProperty num (JString s) = Some (QuoteJSONString s)"
| "SerializeJSONProperty num (JArray vs) =
     Some (''['' @ join '','' (SerializeJSONArray num vs) @ '']'')"
| "SerializeJSONProperty num (JObject kvs) =
     Some (''{'' @ join '','' (SerializeJSONObject num kvs) @ ''}'')"
| "SerializeJSONArray num [] = []"
| "SerializeJSONArray num (v # vs) =
     (case SerializeJSONProperty num v of None \<Rightarrow> ''null'' | Some s \<Rightarrow> s)
       # SerializeJSONArray num vs"
| "SerializeJSONObject num [] = []"
| "SerializeJSONObject num ((k, v) # kvs) =
     (case SerializeJSONProperty num v of
        None \<Rightarrow> SerializeJSONObject num kvs
      | Some s \<Rightarrow> (QuoteJSONString k @ '':'' @ s) # SerializeJSONObject num kvs)"

definition JSON_stringify :: "('n \<Rightarrow> string) \<Rightarrow> 'n js_value \<Rightarrow> string option" where
  "JSON_stringify num v = SerializeJSONProperty num v"

subsection \<open>Requests and responses\<close>

record response =
  body :: string
  status :: nat

text \<open>\<^verbatim>\<open>new Response(body, { status })\<close>; a body of \<^verbatim>\<open>undefined\<close> is the empty body.\<close>

definition Response :: "string option \<Rightarrow> nat \<Rightarrow> response" where
  "Response b s = \<lparr>body = (case b of None \<Rightarrow> [] | Some t \<Rightarrow> t), status = s\<rparr>"

record 'n request =
  headers :: "string \<rightharpoonup> string"
  parsed_body :: "js_error + 'n js_value"
  bodyUsed :: bool

text \<open>\<^verbatim>\<open>req.json()\<close>: rejects with a TypeError when the body was read before; otherwise marks
  the body used and settles to the parse of the body.\<close>

definition json :: "'n request \<Rightarrow> (js_error + 'n js_value) \<times> 'n request" where
  "json req =
     (if bodyUsed req then (Inl TypeError, req)
      else (parsed_body req, req\<lparr>bodyUsed := True\<rparr>))"

text \<open>The destructuring pattern \<^verbatim>\<open>const { season, week } = v\<close>: a TypeError on
  \<^verbatim>\<open>undefined\<close> and \<^verbatim>\<open>null\<close>; the two properties of an object (\<^verbatim>\<open>undefined\<close> when it has
  none of that name); \<^verbatim>\<open>undefined\<close> twice on an array or a primitive, whose prototypes
  define neither name.\<close>

definition property :: "(string \<times> 'n js_value) list \<Rightarrow> string \<Rightarrow> 'n js_value" where
  "property kvs k = (case map_of kvs k of None \<Rightarrow> JUndefined | Some v \<Rightarrow> v)"

fun destructure_season_week :: "'n js_value \<Rightarrow> js_error + ('n js_value \<times> 'n js_value)" where
  "destructure_season_week JUndefined = Inl TypeError"
| "destructure_season_week JNull = Inl TypeError"
| "destructure_season_week (JObject kvs) = Inr (property kvs ''season'', property kvs ''week'')"
| "destructure_season_week v = Inr (JUndefined, JUndefined)"

subsection \<open>\<^verbatim>\<open>requireTriggerToken\<close> (lib/utils)\<close>

text \<open>
  \<^verbatim>\<open>
  export function requireTriggerToken(headers: Headers) {
    const token = headers.get('x-trigger-token');
    if (!token || token !== process.env.TRIGGER_TOKEN) {
      return new Response('Unauthorized', { status: 401 });
    }
    return null;
  }
  \<close>
  \<^verbatim>\<open>!token\<close> holds of \<^verbatim>\<open>null\<close> and of the empty string; \<^verbatim>\<open>!==\<close> between a string and the
  environment's value holds unless that value is the same string.
\<close>

definition requireTriggerToken :: "string option \<Rightarrow> (string \<rightharpoonup> string) \<Rightarrow> response option" where
  "requireTriggerToken TRIGGER_TOKEN hdrs =
     (let token = hdrs ''x-trigger-token'' in
      if (case token of None \<Rightarrow> True | Some t \<Rightarrow> t = [] \<or> TRIGGER_TOKEN \<noteq> Some t)
      then Some (Response (Some ''Unauthorized'') 401)
      else None)"

subsection \<open>The route handlers\<close>

text \<open>
  \<^verbatim>\<open>app/api/trigger-weekly/route.ts\<close> and \<^verbatim>\<open>app/api/waivers/scan/route.ts\<close>:
  \<^verbatim>\<open>
  export async function POST(req: Request) {
    const unauthorized = requireTriggerToken(req.headers);
    if (unauthorized) return unauthorized;
    const { season, week } = await req.json().catch(() => ({ season: undefined, week: undefined }));
    return new Response(JSON.stringify({ ok: true, season, week }), { status: 200 });
  }
  \<close>
  The two files differ in their TODO comment only. A Response object is truthy, so
  \<^verbatim>\<open>if (unauthorized)\<close> is the test for a result other than \<^verbatim>\<open>null\<close>.
\<close>

definition POST_trigger_weekly ::
  "('n \<Rightarrow> string) \<Rightarrow> string option \<Rightarrow> 'n request \<Rightarrow> (js_error + response) \<times> 'n request" where
  "POST_trigger_weekly num TRIGGER_TOKEN req =
     (case requireTriggerToken TRIGGER_TOKEN (headers req) of
        Some unauthorized \<Rightarrow> (Inr unauthorized, req)
      | None \<Rightarrow>
          (let (settled, req') = json req;
               v = (case settled of
                      Inl e \<Rightarrow> JObject [(''season'', JUndefined), (''week'', JUndefined)]
                    | Inr j \<Rightarrow> j)
           in case destructure_season_week v of
                Inl e \<Rightarrow> (Inl e, req')
              | Inr (season, week) \<Rightarrow>
                  (Inr (Response
                     (JSON_stringify num
                        (JObject [(''ok'', JBoolean True), (''season'', season), (''week'', week)]))
                     200), req')))"

definition POST_waivers_scan ::
  "('n \<Rightarrow> string) \<Rightarrow> string option \<Rightarrow> 'n request \<Rightarrow> (js_error + response) \<times> 'n request" where
  "POST_waivers_scan num TRIGGER_TOKEN req =
     (case requireTriggerToken TRIGGER_TOKEN (headers req) of
        Some unauthorized \<Rightarrow> (Inr unauthorized, req)
      | None \<Rightarrow>
          (let (settled, req') = json req;
               v = (case settled of
                      Inl e \<Rightarrow> JObject [(''season'', JUndefined), (''week'', JUndefined)]
                    | Inr j \<Rightarrow> j)
           in case destructure_season_week v of
                Inl e \<Rightarrow> (Inl e, req')
              | Inr (season, week) \<Rightarrow>
                  (Inr (Response
                     (JSON_stringify num
                        (JObject [(''ok'', JBoolean True), (''season'', season), (''week'', week)]))
                     200), req')))"

text \<open>
  \<^verbatim>\<open>app/api/refresh-week/route.ts\<close>:
  \<^verbatim>\<open>
  export async function POST(req: Request) {
    const unauthorized = requireTriggerToken(req.headers);
    if (unauthorized) return unauthorized;
    return new Response(JSON.stringify({ ok: true }), { status: 200 });
  }
  \<close>
\<close>

definition POST_refresh_week ::
  "('n \<Rightarrow> string) \<Rightarrow> string option \<Rightarrow> 'n request \<Rightarrow> (js_error + response) \<times> 'n request" where
  "POST_refresh_week num TRIGGER_TOKEN req =
     (case requireTriggerToken TRIGGER_TOKEN (headers req) of
        Some unauthorized \<Rightarrow> (Inr unauthorized, req)
      | None \<Rightarrow>
          (Inr (Response (JSON_stringify num (JObject [(''ok'', JBoolean True)])) 200), req))"

text \<open>Decimal digits of an integer, the text of an integral Number of moderate size; used to
  instantiate \<open>num\<close> in examples.\<close>

fun digits :: "nat \<Rightarrow> string" where
  "digits n = (if n < 10 then [hex_digit n] else digits (n div 10) @ [hex_digit (n mod 10)])"

definition integer_text :: "int \<Rightarrow> string" where
  "integer_text i = (if i < 0 then CHR ''-'' # digits (nat (- i)) else digits (nat i))"

subsection \<open>Example requests\<close>

definition wrong_token_request :: "'n request" where
  "wrong_token_request =
     \<lparr>headers = [''x-trigger-token'' \<mapsto> ''guess''], parsed_body = Inr (JObject []),
      bodyUsed = False\<rparr>"

definition malformed_body_request :: "'n request" where
  "malformed_body_request =
     \<lparr>headers = [''x-trigger-token'' \<mapsto> ''s3cret''], parsed_body = Inl SyntaxError,
      bodyUsed = False\<rparr>"

definition season_week_request :: "int request" where
  "season_week_request =
     \<lparr>headers = [''x-trigger-token'' \<mapsto> ''s3cret''],
      parsed_body = Inr (JObject [(''season'', JNumber 2025), (''week'', JNumber 3)]),
      bodyUsed = False\<rparr>"

definition null_body_request :: "int request" where
  "null_body_request =
     \<lparr>headers = [''x-trigger-token'' \<mapsto> ''s3cret''], parsed_body = Inr JNull,
      bodyUsed = False\<rparr>"

section \<open>The storage: \<^verbatim>\<open>supabase/schema.sql\<close>\<close>

text \<open>
  The schema is data definition only; what it means is PostgreSQL's reading of it. The model
  has a catalog of table definitions (columns with their type, \<^verbatim>\<open>not null\<close>, default,
  \<^verbatim>\<open>check\<close> and \<^verbatim>\<open>references\<close>; the primary key) and the rows of each table, and the
  statements \<^verbatim>\<open>create table if not exists\<close>, \<^verbatim>\<open>insert\<close>, \<^verbatim>\<open>update\<close> and \<^verbatim>\<open>delete\<close>, each
  returning the new state or \<open>Inl\<close> the error that refuses it. An \<^verbatim>\<open>int\<close> is a 32-bit
  integer, a \<^verbatim>\<open>numeric\<close> a rational, a \<^verbatim>\<open>timestamptz\<close> an instant counted as an integer.
\<close>

subsection \<open>Values, rows and table definitions\<close>

datatype table_name =
    Players | Schedule | Defense_vs_pos | Odds | News | Pred_cache
  | User_leagues | Rosters | Transactions | Model_runs | Model_registry
  | Waiver_suggestions

definition all_tables :: "table_name list" where
  "all_tables =
     [Players, Schedule, Defense_vs_pos, Odds, News, Pred_cache, User_leagues, Rosters,
      Transactions, Model_runs, Model_registry, Waiver_suggestions]"

datatype sql_type = T_text | T_int | T_boolean | T_numeric | T_timestamptz | T_uuid | T_jsonb

datatype sql_value =
    VNull
  | VInt int
  | VText string
  | VBool bool
  | VNumeric rat
  | VTimestamptz int
  | VUuid string
  | VJsonb string

datatype pg_error =
    Undefined_table
  | Undefined_column
  | Datatype_mismatch
  | Integer_out_of_range
  | Division_by_zero
  | Not_null_violation
  | Check_violation
  | Unique_violation
  | Foreign_key_violation
  | Statement_too_complex

fun has_type :: "sql_type \<Rightarrow> sql_value \<Rightarrow> bool" where
  "has_type t VNull = True"
| "has_type t (VInt i) = (t = T_int \<and> - 2147483648 \<le> i \<and> i \<le> 2147483647)"
| "has_type t (VText s) = (t = T_text)"
| "has_type t (VBool b) = (t = T_boolean)"
| "has_type t (VNumeric q) = (t = T_numeric)"
| "has_type t (VTimestamptz u) = (t = T_timestamptz)"
| "has_type t (VUuid u) = (t = T_uuid)"
| "has_type t (VJsonb j) = (t = T_jsonb)"

datatype default_expr = Default_now | Default_gen_random_uuid | Default_text string | Default_bool bool

datatype fk_action = No_action | Cascade

record foreign_key =
  ref_table :: table_name
  ref_column :: string
  on_delete :: fk_action

record column =
  col_name :: string
  col_type :: sql_type
  not_null :: bool
  col_default :: "default_expr option"
  col_between :: "(int \<times> int) option"
  col_references :: "foreign_key option"

record table_def =
  columns :: "column list"
  primary_key :: "string list"

type_synonym row = "(string \<times> sql_value) list"

definition field :: "row \<Rightarrow> string \<Rightarrow> sql_value" where
  "field r c = (case map_of r c of None \<Rightarrow> VNull | Some v \<Rightarrow> v)"

record db =
  catalog :: "table_name \<rightharpoonup> table_def"
  contents :: "table_name \<Rightarrow> row list"

definition empty_db :: db where
  "empty_db = \<lparr>catalog = Map.empty, contents = (\<lambda>t. [])\<rparr>"

subsection \<open>The two schema scripts\<close>

text \<open>
  A column as the DDL writes it: \<^verbatim>\<open>name type\<close>, then the column constraints.
  \<open>col_between\<close> is a column's \<^verbatim>\<open>check (c between lo and hi)\<close>.
\<close>

definition col :: "string \<Rightarrow> sql_type \<Rightarrow> column" where
  "col n t = \<lparr>col_name = n, col_type = t, not_null = False, col_default = None,
              col_between = None, col_references = None\<rparr>"

definition nn :: "column \<Rightarrow> column" where
  "nn c = c\<lparr>not_null := True\<rparr>"

definition week_check :: "column \<Rightarrow> column" where
  "week_check c = c\<lparr>col_between := Some (1, 23)\<rparr>"

definition with_default :: "default_expr \<Rightarrow> column \<Rightarrow> column" where
  "with_default e c = c\<lparr>col_default := Some e\<rparr>"

definition references_players :: "column \<Rightarrow> column" where
  "references_players c =
     c\<lparr>col_references :=
         Some \<lparr>ref_table = Players, ref_column = ''player_id'', on_delete = Cascade\<rparr>\<rparr>"

definition players_def :: table_def where
  "players_def = \<lparr>columns =
      [col ''player_id'' T_text,
       nn (col ''position'' T_text),
       col ''team'' T_text,
       nn (col ''name'' T_text)],
     primary_key = [''player_id'']\<rparr>"

definition schedule_def :: table_def where
  "schedule_def = \<lparr>columns =
      [nn (col ''season'' T_int),
       week_check (nn (col ''week'' T_int)),
       nn (col ''team'' T_text),
       nn (col ''opp'' T_text),
       nn (col ''home'' T_boolean)],
     primary_key = [''season'', ''week'', ''team'']\<rparr>"

definition defense_vs_pos_def :: table_def where
  "defense_vs_pos_def = \<lparr>columns =
      [nn (col ''season'' T_int),
       week_check (nn (col ''week'' T_int)),
       nn (col ''team'' T_text),
       nn (col ''position'' T_text),
       nn (col ''dvp'' T_numeric)],
     primary_key = [''season'', ''week'', ''team'', ''position'']\<rparr>"

definition odds_def :: table_def where
  "odds_def = \<lparr>columns =
      [nn (col ''season'' T_int),
       week_check (nn (col ''week'' T_int)),
       nn (col ''game_id'' T_text),
       nn (col ''team'' T_text),
       nn (col ''opp'' T_text),
       col ''spread'' T_numeric,
       col ''moneyline'' T_int,
       col ''total'' T_numeric,
       with_default Default_now (nn (col ''updated_at'' T_timestamptz))],
     primary_key = [''season'', ''week'', ''game_id'', ''team'']\<rparr>"

definition news_def :: table_def where
  "news_def = \<lparr>columns =
      [references_players (nn (col ''player_id'' T_text)),
       nn (col ''ts'' T_timestamptz),
       nn (col ''headline'' T_text)],
     primary_key = [''player_id'', ''ts'']\<rparr>"

definition pred_cache_def :: table_def where
  "pred_cache_def = \<lparr>columns =
      [nn (col ''pk'' T_text),
       nn (col ''sk'' T_text),
       nn (col ''p50'' T_numeric),
       nn (col ''lo'' T_numeric),
       nn (col ''hi'' T_numeric),
       nn (col ''valid_until'' T_timestamptz)],
     primary_key = [''pk'', ''sk'']\<rparr>"

definition user_leagues_def :: table_def where
  "user_leagues_def = \<lparr>columns =
      [nn (col ''user_id'' T_uuid),
       nn (col ''league_id'' T_text),
       col ''league_name'' T_text,
       col ''league_avatar'' T_text],
     primary_key = [''user_id'', ''league_id'']\<rparr>"

definition rosters_def :: table_def where
  "rosters_def = \<lparr>columns =
      [nn (col ''league_id'' T_text),
       nn (col ''user_id'' T_uuid),
       references_players (nn (col ''player_id'' T_text)),
       nn (col ''slot'' T_text),
       nn (col ''season'' T_int),
       week_check (nn (col ''week'' T_int))],
     primary_key = [''league_id'', ''user_id'', ''player_id'', ''season'', ''week'']\<rparr>"

definition transactions_def :: table_def where
  "transactions_def = \<lparr>columns =
      [nn (col ''league_id'' T_text),
       nn (col ''ts'' T_timestamptz),
       nn (col ''type'' T_text),
       nn (col ''payload'' T_jsonb)],
     primary_key = [''league_id'', ''ts'']\<rparr>"

definition model_runs_def :: table_def where
  "model_runs_def = \<lparr>columns =
      [with_default Default_gen_random_uuid (col ''run_id'' T_uuid),
       col ''season'' T_int,
       col ''week'' T_int,
       nn (col ''stage'' T_text),
       col ''metrics'' T_jsonb,
       with_default (Default_text ''started'') (nn (col ''status'' T_text)),
       with_default Default_now (nn (col ''started_at'' T_timestamptz)),
       col ''ended_at'' T_timestamptz],
     primary_key = [''run_id'']\<rparr>"

definition model_registry_def :: table_def where
  "model_registry_def = \<lparr>columns =
      [col ''model_id'' T_text,
       col ''label'' T_text,
       col ''metrics'' T_jsonb,
       with_default (Default_bool False) (nn (col ''is_prod'' T_boolean)),
       col ''prod_week'' T_int,
       col ''prod_season'' T_int],
     primary_key = [''model_id'']\<rparr>"

definition waiver_suggestions_def :: table_def where
  "waiver_suggestions_def = \<lparr>columns =
      [nn (col ''league_id'' T_text),
       nn (col ''season'' T_int),
       week_check (nn (col ''week'' T_int)),
       references_players (nn (col ''player_id'' T_text)),
       nn (col ''evor'' T_numeric),
       col ''reason'' T_text,
       with_default Default_now (nn (col ''created_at'' T_timestamptz))],
     primary_key = [''league_id'', ''season'', ''week'', ''player_id'']\<rparr>"

datatype ddl = Create_table_if_not_exists table_name table_def

text \<open>The \<^verbatim>\<open>create table if not exists public.*\<close> statements of \<^verbatim>\<open>supabase/schema.sql\<close>, in
  the script's order. Its \<^verbatim>\<open>create extension\<close> and \<^verbatim>\<open>create index\<close> statements change no
  table's definition or rows and are left out; its view \<^verbatim>\<open>odds_implied\<close> is the function
  \<open>odds_implied\<close> below.\<close>

definition schema_sql :: "ddl list" where
  "schema_sql =
     [Create_table_if_not_exists Players players_def,
      Create_table_if_not_exists Schedule schedule_def,
      Create_table_if_not_exists Defense_vs_pos defense_vs_pos_def,
      Create_table_if_not_exists Odds odds_def,
      Create_table_if_not_exists News news_def,
      Create_table_if_not_exists Pred_cache pred_cache_def,
      Create_table_if_not_exists User_leagues user_leagues_def,
      Create_table_if_not_exists Rosters rosters_def,
      Create_table_if_not_exists Transactions transactions_def,
      Create_table_if_not_exists Model_runs model_runs_def,
      Create_table_if_not_exists Model_registry model_registry_def,
      Create_table_if_not_exists Waiver_suggestions waiver_suggestions_def]"

text \<open>The repository's second script creates the same twelve tables, unqualified (the
  default search path resolves them to \<^verbatim>\<open>public\<close>), with the same columns, keys, defaults and
  references, and without the \<^verbatim>\<open>check\<close> on \<^verbatim>\<open>week\<close>.\<close>

definition without_check :: "table_def \<Rightarrow> table_def" where
  "without_check d = d\<lparr>columns := map (\<lambda>c. c\<lparr>col_between := None\<rparr>) (columns d)\<rparr>"

definition second_schema_sql :: "ddl list" where
  "second_schema_sql =
     [Create_table_if_not_exists Players players_def,
      Create_table_if_not_exists Schedule (without_check schedule_def),
      Create_table_if_not_exists Defense_vs_pos (without_check defense_vs_pos_def),
      Create_table_if_not_exists Odds (without_check odds_def),
      Create_table_if_not_exists News news_def,
      Create_table_if_not_exists Pred_cache pred_cache_def,
      Create_table_if_not_exists User_leagues user_leagues_def,
      Create_table_if_not_exists Rosters (without_check rosters_def),
      Create_table_if_not_exists Transactions transactions_def,
      Create_table_if_not_exists Model_runs model_runs_def,
      Create_table_if_not_exists Model_registry model_registry_def,
      Create_table_if_not_exists Waiver_suggestions (without_check waiver_suggestions_def)]"

fun exec_ddl :: "ddl \<Rightarrow> db \<Rightarrow> db" where
  "exec_ddl (Create_table_if_not_exists t d) s =
     (case catalog s t of
        Some existing \<Rightarrow> s
      | None \<Rightarrow> s\<lparr>catalog := (catalog s)(t \<mapsto> d), contents := (contents s)(t := [])\<rparr>)"

definition run_script :: "ddl list \<Rightarrow> db \<Rightarrow> db" where
  "run_script stmts s = fold exec_ddl stmts s"

subsection \<open>Insert, update and delete\<close>

record session =
  now :: int
  gen_random_uuid :: string

fun eval_default :: "session \<Rightarrow> default_expr option \<Rightarrow> sql_value" where
  "eval_default e None = VNull"
| "eval_default e (Some Default_now) = VTimestamptz (now e)"
| "eval_default e (Some Default_gen_random_uuid) = VUuid (gen_random_uuid e)"
| "eval_default e (Some (Default_text s)) = VText s"
| "eval_default e (Some (Default_bool b)) = VBool b"

text \<open>The row an \<^verbatim>\<open>insert\<close> builds: the given value of a column, its default when the
  statement names no value for it. The values are the ones the statement's expressions have
  after their cast to the column's type.\<close>

definition new_row :: "session \<Rightarrow> table_def \<Rightarrow> row \<Rightarrow> row" where
  "new_row e d given =
     map (\<lambda>c. (col_name c,
               case map_of given (col_name c) of
                 Some v \<Rightarrow> v
               | None \<Rightarrow> eval_default e (col_default c)))
         (columns d)"

definition is_not_null :: "table_def \<Rightarrow> column \<Rightarrow> bool" where
  "is_not_null d c = (not_null c \<or> col_name c \<in> set (primary_key d))"

definition between_ok :: "(int \<times> int) option \<Rightarrow> sql_value \<Rightarrow> bool" where
  "between_ok b v =
     (case b of
        None \<Rightarrow> True
      | Some (lo, hi) \<Rightarrow> (case v of VInt i \<Rightarrow> lo \<le> i \<and> i \<le> hi | other \<Rightarrow> True))"

text \<open>The column constraints on one row: types, then \<^verbatim>\<open>not null\<close> (a primary key column is
  not null), then the checks. A check holds when its expression is true or null.\<close>

definition row_error :: "table_def \<Rightarrow> row \<Rightarrow> pg_error option" where
  "row_error d r =
     (if list_ex (\<lambda>c. \<not> has_type (col_type c) (field r (col_name c))) (columns d)
        then Some Datatype_mismatch
      else if list_ex (\<lambda>c. is_not_null d c \<and> field r (col_name c) = VNull) (columns d)
        then Some Not_null_violation
      else if list_ex (\<lambda>c. \<not> between_ok (col_between c) (field r (col_name c))) (columns d)
        then Some Check_violation
      else None)"

definition key_of :: "table_def \<Rightarrow> row \<Rightarrow> sql_value list" where
  "key_of d r = map (field r) (primary_key d)"

definition references_ok :: "(table_name \<Rightarrow> row list) \<Rightarrow> table_def \<Rightarrow> row \<Rightarrow> bool" where
  "references_ok tbls d r =
     list_all (\<lambda>c. case col_references c of
                     None \<Rightarrow> True
                   | Some fk \<Rightarrow>
                       field r (col_name c) = VNull
                       \<or> field r (col_name c)
                           \<in> set (map (\<lambda>p. field p (ref_column fk)) (tbls (ref_table fk))))
              (columns d)"

definition insert_row :: "session \<Rightarrow> table_name \<Rightarrow> row \<Rightarrow> db \<Rightarrow> pg_error + db" where
  "insert_row e t given s =
     (case catalog s t of
        None \<Rightarrow> Inl Undefined_table
      | Some d \<Rightarrow>
          if list_ex (\<lambda>(c, v). c \<notin> set (map col_name (columns d))) given
            then Inl Undefined_column
          else
            let r = new_row e d given in
            case row_error d r of
              Some err \<Rightarrow> Inl err
            | None \<Rightarrow>
                if key_of d r \<in> set (map (key_of d) (contents s t)) then Inl Unique_violation
                else if \<not> references_ok (contents s) d r then Inl Foreign_key_violation
                else Inr (s\<lparr>contents := (contents s)(t := contents s t @ [r])\<rparr>))"

text \<open>\<^verbatim>\<open>update t set c1 = e1, ... where p\<close>: each expression is a function of the old row.\<close>

definition set_fields :: "(string \<times> (row \<Rightarrow> sql_value)) list \<Rightarrow> row \<Rightarrow> row" where
  "set_fields assignments r =
     map (\<lambda>(c, v). (c, case map_of assignments c of None \<Rightarrow> v | Some e \<Rightarrow> e r)) r"

text \<open>The tables with a column that references \<open>t\<close>, each with that column and its
  constraint.\<close>

definition referencing ::
  "(table_name \<rightharpoonup> table_def) \<Rightarrow> table_name \<Rightarrow> (table_name \<times> string \<times> foreign_key) list" where
  "referencing cat t =
     concat (map (\<lambda>c. case cat c of
                         None \<Rightarrow> []
                       | Some d \<Rightarrow>
                           List.map_filter
                             (\<lambda>cl. case col_references cl of
                                      None \<Rightarrow> None
                                    | Some fk \<Rightarrow>
                                        if ref_table fk = t then Some (c, col_name cl, fk)
                                        else None)
                             (columns d))
                 all_tables)"

definition update_rows ::
  "table_name \<Rightarrow> (row \<Rightarrow> bool) \<Rightarrow> (string \<times> (row \<Rightarrow> sql_value)) list \<Rightarrow> db \<Rightarrow> pg_error + db" where
  "update_rows t p assignments s =
     (case catalog s t of
        None \<Rightarrow> Inl Undefined_table
      | Some d \<Rightarrow>
          if list_ex (\<lambda>(c, e). c \<notin> set (map col_name (columns d))) assignments
            then Inl Undefined_column
          else
            let changed = map (set_fields assignments) (filter p (contents s t));
                rows' = map (\<lambda>r. if p r then set_fields assignments r else r) (contents s t);
                tbls' = (contents s)(t := rows')
            in case List.map_filter (row_error d) changed of
                 err # others \<Rightarrow> Inl err
               | [] \<Rightarrow>
                   if \<not> distinct (map (key_of d) rows') then Inl Unique_violation
                   else if \<not> list_all (references_ok tbls' d) changed
                     then Inl Foreign_key_violation
                   else if list_ex (\<lambda>(c, cl, fk).
                              case catalog s c of
                                None \<Rightarrow> False
                              | Some cd \<Rightarrow> \<not> list_all (references_ok tbls' cd) (tbls' c))
                             (referencing (catalog s) t)
                     then Inl Foreign_key_violation
                   else Inr (s\<lparr>contents := tbls'\<rparr>))"

text \<open>\<^verbatim>\<open>delete from t where p\<close>. The rows that go take with them, table by table, the rows
  that reference them through an \<^verbatim>\<open>on delete cascade\<close> column; a reference without that
  action refuses the statement. The first argument bounds the depth of the cascade; the
  statement starts with one more than the number of tables, which the schema's references
  (all to \<^verbatim>\<open>players\<close>) never use up.\<close>

fun cascade_delete ::
    "nat \<Rightarrow> (table_name \<rightharpoonup> table_def) \<Rightarrow> table_name \<Rightarrow> (row \<Rightarrow> bool)
       \<Rightarrow> (table_name \<Rightarrow> row list) \<Rightarrow> pg_error + (table_name \<Rightarrow> row list)"
  and cascade_children ::
    "nat \<Rightarrow> (table_name \<rightharpoonup> table_def) \<Rightarrow> row list
       \<Rightarrow> (table_name \<times> string \<times> foreign_key) list
       \<Rightarrow> (table_name \<Rightarrow> row list) \<Rightarrow> pg_error + (table_name \<Rightarrow> row list)"
where
  "cascade_delete 0 cat t p tbls = Inl Statement_too_complex"
| "cascade_delete (Suc n) cat t p tbls =
     (let doomed = filter p (tbls t) in
      if doomed = [] then Inr tbls
      else cascade_children n cat doomed (referencing cat t)
             (tbls(t := filter (\<lambda>r. \<not> p r) (tbls t))))"
| "cascade_children n cat doomed [] tbls = Inr tbls"
| "cascade_children n cat doomed ((c, cl, fk) # others) tbls =
     (let refers = (\<lambda>r. field r cl \<noteq> VNull
                       \<and> field r cl \<in> set (map (\<lambda>p. field p (ref_column fk)) doomed))
      in case on_delete fk of
           No_action \<Rightarrow>
             if list_ex refers (tbls c) then Inl Foreign_key_violation
             else cascade_children n cat doomed others tbls
         | Cascade \<Rightarrow>
             (case cascade_delete n cat c refers tbls of
                Inl err \<Rightarrow> Inl err
              | Inr tbls' \<Rightarrow> cascade_children n cat doomed others tbls'))"

definition delete_where :: "table_name \<Rightarrow> (row \<Rightarrow> bool) \<Rightarrow> db \<Rightarrow> pg_error + db" where
  "delete_where t p s =
     (case catalog s t of
        None \<Rightarrow> Inl Undefined_table
      | Some d \<Rightarrow>
          (case cascade_delete (Suc (length all_tables)) (catalog s) t p (contents s) of
             Inl err \<Rightarrow> Inl err
           | Inr tbls' \<Rightarrow> Inr (s\<lparr>contents := tbls'\<rparr>)))"

text \<open>The states of the storage: the tables as \<^verbatim>\<open>supabase/schema.sql\<close> creates them in an
  empty database, then any statements: either script's \<^verbatim>\<open>create table if not exists\<close> again,
  inserts, updates and deletes that the storage accepts.\<close>

inductive reachable :: "db \<Rightarrow> bool" where
  created: "reachable (run_script schema_sql empty_db)"
| ddl: "reachable s \<Longrightarrow> reachable (exec_ddl stmt s)"
| inserted: "reachable s \<Longrightarrow> insert_row e t given s = Inr s' \<Longrightarrow> reachable s'"
| updated: "reachable s \<Longrightarrow> update_rows t p assignments s = Inr s' \<Longrightarrow> reachable s'"
| deleted: "reachable s \<Longrightarrow> delete_where t p s = Inr s' \<Longrightarrow> reachable s'"

code_pred reachable .

subsection \<open>The view \<^verbatim>\<open>odds_implied\<close>\<close>







subsection \<open>The prediction cache's read path\<close>

text \<open>
  Modelled from the spec: the "get fresh prediction" read of \<^verbatim>\<open>pred_cache\<close>, which the
  repository's sources do not contain (they hold the table only). Section 4.3: the read path
  performs a lookup by (pk, sk) and checks \<^verbatim>\<open>valid_until\<close> against the current time; an entry
  at or past its expiry is a cache miss; a miss is surfaced as "no fresh prediction" and
  triggers no recomputation. The read returns the storage with its answer.
\<close>

definition get_fresh_prediction :: "int \<Rightarrow> string \<Rightarrow> string \<Rightarrow> db \<Rightarrow> row option \<times> db" where
  "get_fresh_prediction current_time pk sk s =
     (case find (\<lambda>r. field r ''pk'' = VText pk \<and> field r ''sk'' = VText sk)
                (contents s Pred_cache) of
        None \<Rightarrow> (None, s)
      | Some r \<Rightarrow>
          (case field r ''valid_until'' of
             VTimestamptz expiry \<Rightarrow> if current_time < expiry then (Some r, s) else (None, s)
           | other \<Rightarrow> (None, s)))"

subsection \<open>The run ledger's writer\<close>

text \<open>
  Modelled from the spec: the writer of \<^verbatim>\<open>model_runs\<close>, which the repository's sources do not
  contain (they hold the table only). Section 4.4: a ModelRun is opened (status = started) at
  the beginning of a pipeline stage and closed by setting status to success or failed plus
  \<^verbatim>\<open>ended_at\<close>, atomically. Opening is an insert that leaves \<^verbatim>\<open>run_id\<close>, \<^verbatim>\<open>status\<close>,
  \<^verbatim>\<open>started_at\<close> and \<^verbatim>\<open>ended_at\<close> to the table's defaults; closing is one update of the
  started run.
\<close>

datatype outcome = Success | Failed

fun outcome_text :: "outcome \<Rightarrow> string" where
  "outcome_text Success = ''success''"
| "outcome_text Failed = ''failed''"

definition open_run :: "session \<Rightarrow> string \<Rightarrow> sql_value \<Rightarrow> sql_value \<Rightarrow> db \<Rightarrow> pg_error + db" where
  "open_run e stage season week s =
     insert_row e Model_runs [(''season'', season), (''week'', week), (''stage'', VText stage)] s"

definition close_run :: "int \<Rightarrow> string \<Rightarrow> outcome \<Rightarrow> sql_value \<Rightarrow> db \<Rightarrow> pg_error + db" where
  "close_run ended run_id oc metrics s =
     update_rows Model_runs
       (\<lambda>r. field r ''run_id'' = VUuid run_id \<and> field r ''status'' = VText ''started'')
       [(''status'', \<lambda>r. VText (outcome_text oc)),
        (''ended_at'', \<lambda>r. VTimestamptz ended),
        (''metrics'', \<lambda>r. metrics)]
       s"

inductive ledger :: "db \<Rightarrow> bool" where
  fresh: "ledger (run_script schema_sql empty_db)"
| opened: "ledger s \<Longrightarrow> open_run e stage season week s = Inr s' \<Longrightarrow> ledger s'"
| closed: "ledger s \<Longrightarrow> close_run ended run_id oc metrics s = Inr s' \<Longrightarrow> ledger s'"

code_pred ledger .

subsection \<open>Predicates for the statements below\<close>

definition schema_catalog :: "table_name \<rightharpoonup> table_def" where
  "schema_catalog = catalog (run_script schema_sql empty_db)"

definition well_formed :: "table_def \<Rightarrow> row \<Rightarrow> bool" where
  "well_formed d r = (map fst r = map col_name (columns d) \<and> row_error d r = None)"

definition consistent :: "db \<Rightarrow> bool" where
  "consistent s =
     (catalog s = schema_catalog
      \<and> (\<forall>t d. catalog s t = Some d \<longrightarrow>
            list_all (well_formed d) (contents s t)
            \<and> distinct (map (key_of d) (contents s t))))"


definition players_fk :: foreign_key where
  "players_fk = \<lparr>ref_table = Players, ref_column = ''player_id'', on_delete = Cascade\<rparr>"


definition run_settled :: "row \<Rightarrow> bool" where
  "run_settled r =
     (field r ''status'' = VText ''started'' \<and> field r ''ended_at'' = VNull
      \<or> (field r ''status'' = VText ''success'' \<or> field r ''status'' = VText ''failed'')
        \<and> field r ''ended_at'' \<noteq> VNull)"

subsection \<open>Example rows and databases\<close>

definition example_session :: session where
  "example_session = \<lparr>now = 1000, gen_random_uuid = ''run-1''\<rparr>"




definition jets_qb :: row where
  "jets_qb =
     [(''player_id'', VText ''p1''), (''position'', VText ''QB''), (''team'', VText ''NYJ''),
      (''name'', VText ''A'')]"

definition bills_qb :: row where
  "bills_qb =
     [(''player_id'', VText ''p2''), (''position'', VText ''QB''), (''team'', VText ''BUF''),
      (''name'', VText ''B'')]"

definition jets_news :: row where
  "jets_news =
     [(''player_id'', VText ''p1''), (''ts'', VTimestamptz 10), (''headline'', VText ''out'')]"

definition bills_news :: row where
  "bills_news =
     [(''player_id'', VText ''p2''), (''ts'', VTimestamptz 11), (''headline'', VText ''fit'')]"

definition league_db :: db where
  "league_db =
     \<lparr>catalog = schema_catalog,
      contents = (\<lambda>t. [])(Players := [jets_qb, bills_qb], News := [jets_news, bills_news])\<rparr>"

definition stale_entry :: row where
  "stale_entry =
     [(''pk'', VText ''w3''), (''sk'', VText ''p1''), (''p50'', VNumeric 12),
      (''lo'', VNumeric 8), (''hi'', VNumeric 17), (''valid_until'', VTimestamptz 500)]"

definition cache_db :: db where
  "cache_db = \<lparr>catalog = schema_catalog, contents = (\<lambda>t. [])(Pred_cache := [stale_entry])\<rparr>"

definition closed_run :: row where
  "closed_run =
     [(''run_id'', VUuid ''run-1''), (''season'', VInt 2025), (''week'', VInt 3),
      (''stage'', VText ''ingest''), (''metrics'', VNull), (''status'', VText ''success''),
      (''started_at'', VTimestamptz 1000), (''ended_at'', VTimestamptz 2000)]"

definition started_run :: row where
  "started_run =
     [(''run_id'', VUuid ''run-1''), (''season'', VInt 2025), (''week'', VInt 3),
      (''stage'', VText ''ingest''), (''metrics'', VNull), (''status'', VText ''started''),
      (''started_at'', VTimestamptz 1000), (''ended_at'', VNull)]"

definition started_db :: db where
  "started_db = \<lparr>catalog = schema_catalog, contents = (\<lambda>t. [])(Model_runs := [started_run])\<rparr>"

definition closed_db :: db where
  "closed_db = \<lparr>catalog = schema_catalog, contents = (\<lambda>t. [])(Model_runs := [closed_run])\<rparr>"




section \<open>Properties of the web tier\<close>

subsection \<open>Unauthorized requests\<close>

lemma requireTriggerToken_result:
  "requireTriggerToken T h = None \<or>
   requireTriggerToken T h = Some \<lparr>body = ''Unauthorized'', status = 401\<rparr>"
  by (simp add: requireTriggerToken_def Response_def Let_def)

lemma requireTriggerToken_None_iff:
  "requireTriggerToken T h = None \<longleftrightarrow>
     (\<exists>t. h ''x-trigger-token'' = Some t \<and> t \<noteq> [] \<and> T = Some t)"
  by (auto simp add: requireTriggerToken_def Let_def split: option.splits)

lemma authorized:
  assumes "TRIGGER_TOKEN = Some secret" and "secret \<noteq> []"
    and "headers req ''x-trigger-token'' = Some secret"
  shows "requireTriggerToken TRIGGER_TOKEN (headers req) = None"
  using assms by (simp add: requireTriggerToken_None_iff)

lemma stringify_ok_only:
  \<open>JSON_stringify num
     (JObject [(''ok'', JBoolean True), (''season'', JUndefined), (''week'', JUndefined)])
   = Some ''{"ok":true}''\<close>
  by (simp add: JSON_stringify_def QuoteJSONString_def quote_code_unit_def)

text \<open>
  Claim C1. A request whose header map has no \<^verbatim>\<open>x-trigger-token\<close>, or whose value for it
  differs from the configured secret, gets the 401 response \<^verbatim>\<open>Unauthorized\<close> from each of
  the three trigger endpoints, and the request comes back as it went in: the body has not
  been read (\<^verbatim>\<open>bodyUsed\<close> is unchanged), and a handler has no other effect to make.
\<close>

theorem unauthorized_is_401_without_effect:
  assumes "headers req ''x-trigger-token'' = None
         \<or> headers req ''x-trigger-token'' \<noteq> TRIGGER_TOKEN"
  shows "POST_trigger_weekly num TRIGGER_TOKEN req
           = (Inr \<lparr>body = ''Unauthorized'', status = 401\<rparr>, req)
       \<and> POST_waivers_scan num TRIGGER_TOKEN req
           = (Inr \<lparr>body = ''Unauthorized'', status = 401\<rparr>, req)
       \<and> POST_refresh_week num TRIGGER_TOKEN req
           = (Inr \<lparr>body = ''Unauthorized'', status = 401\<rparr>, req)"
proof -
  have "requireTriggerToken TRIGGER_TOKEN (headers req) \<noteq> None"
    using assms by (auto simp add: requireTriggerToken_None_iff)
  then have "requireTriggerToken TRIGGER_TOKEN (headers req)
               = Some \<lparr>body = ''Unauthorized'', status = 401\<rparr>"
    using requireTriggerToken_result [of TRIGGER_TOKEN "headers req"] by auto
  then show ?thesis
    by (simp add: POST_trigger_weekly_def POST_waivers_scan_def POST_refresh_week_def)
qed

theorem unauthorized_is_401_without_effect_witness:
  "headers (wrong_token_request :: int request) ''x-trigger-token'' \<noteq> Some ''s3cret''
   \<and> POST_trigger_weekly integer_text (Some ''s3cret'') wrong_token_request
        = (Inr \<lparr>body = ''Unauthorized'', status = 401\<rparr>, wrong_token_request)
   \<and> POST_waivers_scan integer_text (Some ''s3cret'') wrong_token_request
        = (Inr \<lparr>body = ''Unauthorized'', status = 401\<rparr>, wrong_token_request)
   \<and> POST_refresh_week integer_text (Some ''s3cret'') wrong_token_request
        = (Inr \<lparr>body = ''Unauthorized'', status = 401\<rparr>, wrong_token_request)"
proof -
  have h: "headers (wrong_token_request :: int request) ''x-trigger-token'' \<noteq> Some ''s3cret''"
    by (simp add: wrong_token_request_def)
  from h unauthorized_is_401_without_effect
         [of wrong_token_request "Some ''s3cret''" integer_text]
  show ?thesis by simp
qed

text \<open>
  Claim C2. When the configured secret is unset or the empty string, the token check authorizes no
  header map: \<^verbatim>\<open>requireTriggerToken\<close> returns the 401 response \<^verbatim>\<open>Unauthorized\<close>, never
  \<^verbatim>\<open>null\<close>, also for a request that presents the empty token.
\<close>

theorem unset_secret_never_authorizes:
  assumes "TRIGGER_TOKEN = None \<or> TRIGGER_TOKEN = Some []"
  shows "requireTriggerToken TRIGGER_TOKEN hdrs
           = Some \<lparr>body = ''Unauthorized'', status = 401\<rparr>"
  using assms
  by (auto simp add: requireTriggerToken_def Response_def Let_def split: option.splits)

theorem unset_secret_never_authorizes_witness:
  "requireTriggerToken (Some []) [''x-trigger-token'' \<mapsto> []]
     = Some \<lparr>body = ''Unauthorized'', status = 401\<rparr>
   \<and> requireTriggerToken None [''x-trigger-token'' \<mapsto> []]
     = Some \<lparr>body = ''Unauthorized'', status = 401\<rparr>"
  using unset_secret_never_authorizes [of "Some []" "[''x-trigger-token'' \<mapsto> []]"]
    unset_secret_never_authorizes [of None "[''x-trigger-token'' \<mapsto> []]"]
  by simp

subsection \<open>Authorized requests\<close>

text \<open>
  Claim C3. A request that bears the configured (non-empty) secret and whose body is absent
  or fails to parse (\<^verbatim>\<open>req.json()\<close> rejects) is answered 200 by \<^verbatim>\<open>trigger-weekly\<close> and by
  \<^verbatim>\<open>waivers/scan\<close>, with the body \<^verbatim>\<open>{"ok":true}\<close>: \<^verbatim>\<open>season\<close> and \<^verbatim>\<open>week\<close> are left out, and
  the handler does not reject.
\<close>

theorem absent_or_malformed_body_is_200:
  assumes "TRIGGER_TOKEN = Some secret" and "secret \<noteq> []"
    and "headers req ''x-trigger-token'' = Some secret"
    and "parsed_body req = Inl e"
  shows \<open>fst (POST_trigger_weekly num TRIGGER_TOKEN req)
            = Inr \<lparr>body = ''{"ok":true}'', status = 200\<rparr>
        \<and> fst (POST_waivers_scan num TRIGGER_TOKEN req)
            = Inr \<lparr>body = ''{"ok":true}'', status = 200\<rparr>\<close>
  using assms(4) authorized [OF assms(1-3)]
  by (simp add: POST_trigger_weekly_def POST_waivers_scan_def json_def property_def
      stringify_ok_only Response_def)

theorem absent_or_malformed_body_is_200_witness:
  \<open>headers (malformed_body_request :: int request) ''x-trigger-token'' = Some ''s3cret''
   \<and> parsed_body (malformed_body_request :: int request) = Inl SyntaxError
   \<and> fst (POST_trigger_weekly integer_text (Some ''s3cret'') malformed_body_request)
        = Inr \<lparr>body = ''{"ok":true}'', status = 200\<rparr>
   \<and> fst (POST_waivers_scan integer_text (Some ''s3cret'') malformed_body_request)
        = Inr \<lparr>body = ''{"ok":true}'', status = 200\<rparr>\<close>
proof -
  have h: "headers (malformed_body_request :: int request) ''x-trigger-token'' = Some ''s3cret''"
    and p: "parsed_body (malformed_body_request :: int request) = Inl SyntaxError"
    by (simp_all add: malformed_body_request_def)
  from h p absent_or_malformed_body_is_200
             [of "Some ''s3cret''" "''s3cret''" malformed_body_request SyntaxError integer_text]
  show ?thesis by simp
qed

text \<open>
  Claim C4. A request that bears the configured (non-empty) secret and whose body parses to
  the object \<^verbatim>\<open>{"season": 2025, "week": 3}\<close> is answered 200 by \<^verbatim>\<open>trigger-weekly\<close> with the body
  \<^verbatim>\<open>{"ok":true,"season":2025,"week":3}\<close>. The two Numbers are the ones the engine writes as
  \<^verbatim>\<open>2025\<close> and \<^verbatim>\<open>3\<close>; the handler is the first reader of the body.
\<close>

theorem trigger_weekly_echoes_2025_3:
  assumes "TRIGGER_TOKEN = Some secret" and "secret \<noteq> []"
    and "headers req ''x-trigger-token'' = Some secret"
    and "\<not> bodyUsed req"
    and "parsed_body req = Inr (JObject [(''season'', JNumber y), (''week'', JNumber w)])"
    and "num y = ''2025''" and "num w = ''3''"
  shows \<open>fst (POST_trigger_weekly num TRIGGER_TOKEN req)
            = Inr \<lparr>body = ''{"ok":true,"season":2025,"week":3}'', status = 200\<rparr>\<close>
  using assms(4-7) authorized [OF assms(1-3)]
  by (simp add: POST_trigger_weekly_def json_def property_def JSON_stringify_def
      QuoteJSONString_def quote_code_unit_def Response_def)

theorem trigger_weekly_echoes_2025_3_witness:
  \<open>headers season_week_request ''x-trigger-token'' = Some ''s3cret''
   \<and> \<not> bodyUsed season_week_request
   \<and> parsed_body season_week_request
        = Inr (JObject [(''season'', JNumber 2025), (''week'', JNumber 3)])
   \<and> integer_text 2025 = ''2025'' \<and> integer_text 3 = ''3''
   \<and> fst (POST_trigger_weekly integer_text (Some ''s3cret'') season_week_request)
        = Inr \<lparr>body = ''{"ok":true,"season":2025,"week":3}'', status = 200\<rparr>\<close>
proof -
  have h: "headers season_week_request ''x-trigger-token'' = Some ''s3cret''"
    and u: "\<not> bodyUsed season_week_request"
    and p: "parsed_body season_week_request
              = Inr (JObject [(''season'', JNumber 2025), (''week'', JNumber 3)])"
    by (simp_all add: season_week_request_def)
  have y: "integer_text 2025 = ''2025''" and w: "integer_text 3 = ''3''"
    by (simp_all add: integer_text_def hex_digit_def)
  from h u p y w trigger_weekly_echoes_2025_3
    [of "Some ''s3cret''" "''s3cret''" season_week_request 2025 3 integer_text]
  show ?thesis by simp
qed

text \<open>
  Claim C10, at the input where the code departs from it. The body text \<^verbatim>\<open>null\<close> parses as
  JSON, so the \<^verbatim>\<open>catch\<close> does not run; destructuring \<^verbatim>\<open>null\<close> throws a TypeError, and the
  two handlers reject instead of answering 200.
\<close>

theorem null_body_rejects_with_TypeError:
  "fst (POST_trigger_weekly integer_text (Some ''s3cret'') null_body_request) = Inl TypeError
   \<and> fst (POST_waivers_scan integer_text (Some ''s3cret'') null_body_request) = Inl TypeError"
  by (simp add: POST_trigger_weekly_def POST_waivers_scan_def requireTriggerToken_def
      null_body_request_def json_def)

text \<open>Every other parsed body is echoed: the values under \<^verbatim>\<open>season\<close> and \<^verbatim>\<open>week\<close> go to
  \<^verbatim>\<open>JSON.stringify\<close> as they are, with no check of their type or range.\<close>

lemma parsed_body_is_echoed:
  assumes "TRIGGER_TOKEN = Some secret" and "secret \<noteq> []"
    and "headers req ''x-trigger-token'' = Some secret"
    and "\<not> bodyUsed req"
    and "parsed_body req = Inr j" and "destructure_season_week j = Inr (s, w)"
  shows "fst (POST_trigger_weekly num TRIGGER_TOKEN req)
           = Inr (Response (JSON_stringify num
                    (JObject [(''ok'', JBoolean True), (''season'', s), (''week'', w)])) 200)
       \<and> fst (POST_waivers_scan num TRIGGER_TOKEN req)
           = Inr (Response (JSON_stringify num
                    (JObject [(''ok'', JBoolean True), (''season'', s), (''week'', w)])) 200)"
  using assms(4-6) authorized [OF assms(1-3)]
  by (simp add: POST_trigger_weekly_def POST_waivers_scan_def json_def)

lemma week_99_is_echoed:
  \<open>fst (POST_waivers_scan integer_text (Some ''s3cret'')
          \<lparr>headers = [''x-trigger-token'' \<mapsto> ''s3cret''],
           parsed_body = Inr (JObject [(''season'', JString ''next''), (''week'', JNumber 99)]),
           bodyUsed = False\<rparr>)
     = Inr \<lparr>body = ''{"ok":true,"season":"next","week":99}'', status = 200\<rparr>\<close>
  by (simp add: POST_waivers_scan_def requireTriggerToken_def json_def property_def
      JSON_stringify_def QuoteJSONString_def quote_code_unit_def Response_def
      integer_text_def hex_digit_def)

section \<open>Properties of the storage\<close>

subsection \<open>The catalog that \<^verbatim>\<open>supabase/schema.sql\<close> creates\<close>

lemma schema_catalog_eq:
  "schema_catalog =
     [Players \<mapsto> players_def, Schedule \<mapsto> schedule_def, Defense_vs_pos \<mapsto> defense_vs_pos_def,
      Odds \<mapsto> odds_def, News \<mapsto> news_def, Pred_cache \<mapsto> pred_cache_def,
      User_leagues \<mapsto> user_leagues_def, Rosters \<mapsto> rosters_def,
      Transactions \<mapsto> transactions_def, Model_runs \<mapsto> model_runs_def,
      Model_registry \<mapsto> model_registry_def, Waiver_suggestions \<mapsto> waiver_suggestions_def]"
  by (simp add: schema_catalog_def run_script_def schema_sql_def empty_db_def)

lemma created_contents: "contents (run_script schema_sql empty_db) = (\<lambda>t. [])"
  by (rule ext) (simp add: run_script_def schema_sql_def empty_db_def)

lemma created_eq: "run_script schema_sql empty_db = \<lparr>catalog = schema_catalog, contents = (\<lambda>t. [])\<rparr>"
  by (simp add: schema_catalog_def created_contents [symmetric])

lemmas table_defs =
  players_def_def schedule_def_def defense_vs_pos_def_def odds_def_def news_def_def
  pred_cache_def_def user_leagues_def_def rosters_def_def transactions_def_def
  model_runs_def_def model_registry_def_def waiver_suggestions_def_def

lemmas column_defs = col_def nn_def week_check_def with_default_def references_players_def

lemmas statement_defs =
  insert_row_def update_rows_def new_row_def row_error_def field_def key_of_def
  references_ok_def is_not_null_def between_ok_def set_fields_def List.map_filter_def

lemma schema_catalog_total: "schema_catalog t \<noteq> None"
  by (cases t) (simp_all add: schema_catalog_eq)

lemma exec_ddl_noop: "catalog s = schema_catalog \<Longrightarrow> exec_ddl stmt s = s"
proof (cases stmt)
  case (Create_table_if_not_exists t d)
  assume "catalog s = schema_catalog"
  with schema_catalog_total [of t] obtain d' where "catalog s t = Some d'" by auto
  with Create_table_if_not_exists show ?thesis by simp
qed

lemma run_script_noop: "catalog s = schema_catalog \<Longrightarrow> run_script stmts s = s"
  unfolding run_script_def by (induction stmts) (simp_all add: exec_ddl_noop)

text \<open>Run after \<^verbatim>\<open>supabase/schema.sql\<close>, the second script changes nothing: every table it
  names exists, with the first script's definition.\<close>

lemma second_script_changes_nothing:
  "run_script second_schema_sql (run_script schema_sql empty_db) = run_script schema_sql empty_db"
  by (rule run_script_noop) (simp add: schema_catalog_def)

subsection \<open>What an accepted statement does\<close>

lemma insert_row_Inr:
  assumes "insert_row e t given s = Inr s'"
  obtains d where "catalog s t = Some d"
    and "row_error d (new_row e d given) = None"
    and "key_of d (new_row e d given) \<notin> set (map (key_of d) (contents s t))"
    and "s' = s\<lparr>contents := (contents s)(t := contents s t @ [new_row e d given])\<rparr>"
  using assms
  by (auto simp add: insert_row_def Let_def split: option.splits if_splits)

lemma update_rows_Inr:
  assumes "update_rows t p a s = Inr s'"
  obtains d where "catalog s t = Some d"
    and "list_all (\<lambda>r. row_error d r = None) (map (set_fields a) (filter p (contents s t)))"
    and "distinct (map (key_of d) (map (\<lambda>r. if p r then set_fields a r else r) (contents s t)))"
    and "s' = s\<lparr>contents := (contents s)(t := map (\<lambda>r. if p r then set_fields a r else r) (contents s t))\<rparr>"
proof -
  from assms obtain d where d: "catalog s t = Some d"
    by (auto simp add: update_rows_def split: option.splits)
  let ?changed = "map (set_fields a) (filter p (contents s t))"
  from assms d have mf: "List.map_filter (row_error d) ?changed = []"
    by (auto simp add: update_rows_def Let_def split: if_splits list.splits)
  have "list_all (\<lambda>r. row_error d r = None) ?changed"
    using mf unfolding List.map_filter_def list_all_iff
    by (auto simp add: filter_empty_conv)
  moreover from assms d have "distinct (map (key_of d) (map (\<lambda>r. if p r then set_fields a r else r) (contents s t)))"
    by (auto simp add: update_rows_def Let_def split: if_splits list.splits)
  moreover from assms d have "s' = s\<lparr>contents := (contents s)(t := map (\<lambda>r. if p r then set_fields a r else r) (contents s t))\<rparr>"
    by (auto simp add: update_rows_def Let_def split: if_splits list.splits)
  ultimately show thesis using that d by blast
qed

lemma cascade_filters:
  "cascade_delete n cat t p tbls = Inr tbls' \<Longrightarrow> \<exists>q. \<forall>c. tbls' c = filter (q c) (tbls c)"
  "cascade_children n cat doomed cs tbls = Inr tbls' \<Longrightarrow> \<exists>q. \<forall>c. tbls' c = filter (q c) (tbls c)"
proof (induction n cat t p tbls and n cat doomed cs tbls arbitrary: tbls' and tbls' rule: cascade_delete_cascade_children.induct)
  case (1 cat t p tbls)
  then show ?case by simp
next
  case (2 n cat t p tbls)
  show ?case
  proof (cases "filter p (tbls t) = []")
    case True
    with 2(2) have "tbls' = tbls" by simp
    then show ?thesis by (intro exI [of _ "\<lambda>c r. True"]) simp
  next
    case False
    with 2(2) have "cascade_children n cat (filter p (tbls t)) (referencing cat t) (tbls(t := filter (\<lambda>r. \<not> p r) (tbls t))) = Inr tbls'"
      by (simp add: Let_def)
    from 2(1) [OF refl False this] obtain q where q: "\<forall>c. tbls' c = filter (q c) ((tbls(t := filter (\<lambda>r. \<not> p r) (tbls t))) c)" by blast
    show ?thesis
      by (intro exI [of _ "\<lambda>c r. q c r \<and> (c = t \<longrightarrow> \<not> p r)"]) (use q in \<open>auto simp add: conj_commute\<close>)
  qed
next
  case (3 n cat doomed tbls)
  then have "tbls' = tbls" by simp
  then show ?case by (intro exI [of _ "\<lambda>c r. True"]) simp
next
  case (4 n cat doomed c cl fk others tbls)
  let ?refers = "\<lambda>r. field r cl \<noteq> VNull \<and> field r cl \<in> set (map (\<lambda>p. field p (ref_column fk)) doomed)"
  show ?case
  proof (cases "on_delete fk")
    case No_action
    with 4(4) have "cascade_children n cat doomed others tbls = Inr tbls'"
      by (simp add: Let_def split: if_splits)
    then show ?thesis using 4(1) [OF refl No_action] 4(4) No_action
      by (auto simp add: Let_def split: if_splits)
  next
    case Cascade
    with 4(4) obtain mid where mid: "cascade_delete n cat c ?refers tbls = Inr mid"
      and rest: "cascade_children n cat doomed others mid = Inr tbls'"
      by (auto simp add: Let_def split: sum.splits)
    from 4(2) [OF refl Cascade mid] obtain q1 where q1: "\<forall>c. mid c = filter (q1 c) (tbls c)" by blast
    from 4(3) [OF refl Cascade mid rest] obtain q2 where q2: "\<forall>c. tbls' c = filter (q2 c) (mid c)" by blast
    show ?thesis
      by (intro exI [of _ "\<lambda>c r. q1 c r \<and> q2 c r"]) (use q1 q2 in \<open>auto simp add: conj_commute\<close>)
  qed
qed

subsection \<open>Every state of the storage satisfies its constraints\<close>

lemma new_row_shape: "map fst (new_row e d given) = map col_name (columns d)"
  by (simp add: new_row_def comp_def)

lemma set_fields_shape: "map fst (set_fields a r) = map fst r"
  by (simp add: set_fields_def comp_def case_prod_unfold)

lemma consistent_created: "consistent (run_script schema_sql empty_db)"
  by (simp add: consistent_def schema_catalog_def created_contents)

lemma consistent_insert:
  assumes "consistent s" and "insert_row e t given s = Inr s'"
  shows "consistent s'"
proof -
  from assms(2) obtain d where d: "catalog s t = Some d"
    and ok: "row_error d (new_row e d given) = None"
    and fresh: "key_of d (new_row e d given) \<notin> set (map (key_of d) (contents s t))"
    and s': "s' = s\<lparr>contents := (contents s)(t := contents s t @ [new_row e d given])\<rparr>"
    by (rule insert_row_Inr)
  show ?thesis
    unfolding consistent_def
  proof (intro conjI allI impI)
    show "catalog s' = schema_catalog" using assms(1) s' by (simp add: consistent_def)
  next
    fix u du assume "catalog s' u = Some du"
    then have u: "catalog s u = Some du" using s' by simp
    with assms(1) have old: "list_all (well_formed du) (contents s u)"
      "distinct (map (key_of du) (contents s u))" by (auto simp add: consistent_def)
    show "list_all (well_formed du) (contents s' u)"
      using old(1) s' d u ok by (auto simp add: well_formed_def new_row_shape)
    show "distinct (map (key_of du) (contents s' u))"
      using old(2) s' d u fresh by auto
  qed
qed

lemma consistent_update:
  assumes "consistent s" and "update_rows t p a s = Inr s'"
  shows "consistent s'"
proof -
  let ?rows' = "map (\<lambda>r. if p r then set_fields a r else r) (contents s t)"
  from assms(2) obtain d where d: "catalog s t = Some d"
    and ok: "list_all (\<lambda>r. row_error d r = None) (map (set_fields a) (filter p (contents s t)))"
    and dist: "distinct (map (key_of d) ?rows')"
    and s': "s' = s\<lparr>contents := (contents s)(t := ?rows')\<rparr>"
    by (rule update_rows_Inr)
  show ?thesis
    unfolding consistent_def
  proof (intro conjI allI impI)
    show "catalog s' = schema_catalog" using assms(1) s' by (simp add: consistent_def)
  next
    fix u du assume "catalog s' u = Some du"
    then have u: "catalog s u = Some du" using s' by simp
    with assms(1) have old: "list_all (well_formed du) (contents s u)"
      "distinct (map (key_of du) (contents s u))" by (auto simp add: consistent_def)
    show "list_all (well_formed du) (contents s' u)"
    proof (cases "u = t")
      case True
      with d u have "du = d" by simp
      with True old(1) ok s' show ?thesis
        by (auto simp add: list_all_iff well_formed_def set_fields_shape)
    next
      case False
      with old(1) s' show ?thesis by simp
    qed
    show "distinct (map (key_of du) (contents s' u))"
      using old(2) s' d u dist by (cases "u = t") auto
  qed
qed

lemma consistent_delete:
  assumes "consistent s" and "delete_where t p s = Inr s'"
  shows "consistent s'"
proof -
  from assms(2) obtain tbls' where c: "cascade_delete (Suc (length all_tables)) (catalog s) t p (contents s) = Inr tbls'"
    and s': "s' = s\<lparr>contents := tbls'\<rparr>"
    by (auto simp add: delete_where_def split: option.splits sum.splits)
  from cascade_filters(1) [OF c] obtain q where q: "\<forall>c. tbls' c = filter (q c) (contents s c)" by blast
  show ?thesis
    unfolding consistent_def
  proof (intro conjI allI impI)
    show "catalog s' = schema_catalog" using assms(1) s' by (simp add: consistent_def)
  next
    fix u du assume "catalog s' u = Some du"
    then have u: "catalog s u = Some du" using s' by simp
    with assms(1) have old: "list_all (well_formed du) (contents s u)"
      "distinct (map (key_of du) (contents s u))" by (auto simp add: consistent_def)
    show "list_all (well_formed du) (contents s' u)"
      using old(1) s' q by (auto simp add: list_all_iff)
    show "distinct (map (key_of du) (contents s' u))"
      using old(2) s' q by (simp add: distinct_map_filter)
  qed
qed

lemma reachable_consistent: "reachable s \<Longrightarrow> consistent s"
proof (induction rule: reachable.induct)
  case created
  show ?case by (rule consistent_created)
next
  case (ddl s stmt)
  then show ?case by (simp add: exec_ddl_noop consistent_def)
next
  case (inserted s e t given s')
  then show ?case using consistent_insert by blast
next
  case (updated s t p assignments s')
  then show ?case using consistent_update by blast
next
  case (deleted s t p s')
  then show ?case using consistent_delete by blast
qed

lemma row_error_NoneD:
  assumes "row_error d r = None" and "c \<in> set (columns d)"
  shows "has_type (col_type c) (field r (col_name c))"
    and "is_not_null d c \<Longrightarrow> field r (col_name c) \<noteq> VNull"
    and "between_ok (col_between c) (field r (col_name c))"
  using assms by (auto simp add: row_error_def list_ex_iff split: if_splits)

subsection \<open>The check on \<^verbatim>\<open>week\<close>\<close>

lemma field_new_row:
  "field (new_row e d given) c =
     (case find (\<lambda>cl. col_name cl = c) (columns d) of
        None \<Rightarrow> VNull
      | Some cl \<Rightarrow> (case map_of given c of Some v \<Rightarrow> v | None \<Rightarrow> eval_default e (col_default cl)))"
proof -
  have m: "map_of (map (\<lambda>cl. (col_name cl, f cl)) cs) c
          = map_option f (find (\<lambda>cl. col_name cl = c) cs)" for f :: "column \<Rightarrow> sql_value" and cs
    by (induction cs) auto
  show ?thesis
  proof (cases "find (\<lambda>cl. col_name cl = c) (columns d)")
    case None
    then show ?thesis by (simp add: field_def new_row_def m)
  next
    case (Some cl)
    then have "col_name cl = c" by (auto simp add: find_Some_iff)
    with Some show ?thesis by (simp add: field_def new_row_def m)
  qed
qed











subsection \<open>Deleting a player\<close>

lemma referencing_players:
  "referencing schema_catalog Players =
     [(News, ''player_id'', players_fk), (Rosters, ''player_id'', players_fk),
      (Waiver_suggestions, ''player_id'', players_fk)]"
  by (simp add: referencing_def all_tables_def schema_catalog_eq table_defs column_defs
      List.map_filter_def players_fk_def)

lemma referencing_others: "t \<noteq> Players \<Longrightarrow> referencing schema_catalog t = []"
  by (simp add: referencing_def all_tables_def schema_catalog_eq table_defs column_defs
      List.map_filter_def)

lemma cascade_leaf:
  assumes "referencing cat c = []"
  shows "cascade_delete (Suc n) cat c q tbls = Inr (tbls(c := filter (\<lambda>r. \<not> q r) (tbls c)))"
proof (cases "filter q (tbls c) = []")
  case True
  then have "filter (\<lambda>r. \<not> q r) (tbls c) = tbls c"
    by (auto simp add: filter_empty_conv filter_id_conv)
  with True show ?thesis by simp
next
  case False
  with assms show ?thesis by (simp add: Let_def)
qed

lemma length_all_tables: "length all_tables = Suc 11"
  by (simp add: all_tables_def)

lemma on_delete_players_fk: "on_delete players_fk = Cascade" "ref_column players_fk = ''player_id''"
  by (simp_all add: players_fk_def)

lemma cascade_from_players:
  assumes ne: "filter p (tbls Players) \<noteq> []"
    and refers: "(\<lambda>r. field r ''player_id'' \<noteq> VNull
                   \<and> field r ''player_id''
                       \<in> set (map (\<lambda>x. field x ''player_id'') (filter p (tbls Players)))) = q"
  shows "cascade_delete (Suc (Suc m)) schema_catalog Players p tbls
           = Inr (tbls
                  (Players := filter (\<lambda>r. \<not> p r) (tbls Players),
                   News := filter (\<lambda>r. \<not> q r) (tbls News),
                   Rosters := filter (\<lambda>r. \<not> q r) (tbls Rosters),
                   Waiver_suggestions := filter (\<lambda>r. \<not> q r) (tbls Waiver_suggestions)))"
proof -
  have leaf: "cascade_delete (Suc m) schema_catalog c q t' = Inr (t'(c := filter (\<lambda>r. \<not> q r) (t' c)))"
    if "c \<noteq> Players" for c t'
    by (rule cascade_leaf [OF referencing_others [OF that]])
  have leaves:
    "cascade_delete (Suc m) schema_catalog News q t' = Inr (t'(News := filter (\<lambda>r. \<not> q r) (t' News)))"
    "cascade_delete (Suc m) schema_catalog Rosters q t' = Inr (t'(Rosters := filter (\<lambda>r. \<not> q r) (t' Rosters)))"
    "cascade_delete (Suc m) schema_catalog Waiver_suggestions q t'
       = Inr (t'(Waiver_suggestions := filter (\<lambda>r. \<not> q r) (t' Waiver_suggestions)))" for t'
    by (rule leaf, simp)+
  have "cascade_children (Suc m) schema_catalog (filter p (tbls Players))
          [(News, ''player_id'', players_fk), (Rosters, ''player_id'', players_fk),
           (Waiver_suggestions, ''player_id'', players_fk)] t'
        = Inr (t'(News := filter (\<lambda>r. \<not> q r) (t' News),
                 Rosters := filter (\<lambda>r. \<not> q r) (t' Rosters),
                 Waiver_suggestions := filter (\<lambda>r. \<not> q r) (t' Waiver_suggestions)))" for t'
    unfolding cascade_children.simps Let_def on_delete_players_fk fk_action.case refers
      leaves sum.case
    by simp
  with ne show ?thesis
    by (simp add: Let_def referencing_players del: cascade_children.simps)
qed

text \<open>The bound on the cascade's depth is never met on this schema: a delete from any of its
  tables is carried out.\<close>

lemma delete_where_succeeds:
  assumes "catalog s = schema_catalog"
  shows "\<exists>s'. delete_where t p s = Inr s'"
proof -
  have "\<exists>tbls'. cascade_delete (Suc (length all_tables)) schema_catalog t p (contents s)
                 = Inr tbls'"
  proof (cases "t = Players")
    case True
    show ?thesis
    proof (cases "filter p (contents s Players) = []")
      case True
      with \<open>t = Players\<close> show ?thesis by simp
    next
      case False
      from cascade_from_players [of p "contents s" _ 11, OF False refl] \<open>t = Players\<close>
      show ?thesis unfolding length_all_tables by blast
    qed
  next
    case False
    from cascade_leaf [OF referencing_others [OF False]] show ?thesis by blast
  qed
  with assms schema_catalog_total [of t] show ?thesis
    by (auto simp add: delete_where_def)
qed

lemma delete_player_cascades:
  assumes cat: "catalog s = schema_catalog"
    and pl: "pl \<in> set (contents s Players)"
    and key: "field pl ''player_id'' \<noteq> VNull"
  shows "delete_where Players (\<lambda>r. field r ''player_id'' = field pl ''player_id'') s =
           Inr (s\<lparr>contents := (contents s)
                  (Players := filter (\<lambda>r. field r ''player_id'' \<noteq> field pl ''player_id'') (contents s Players),
                   News := filter (\<lambda>r. field r ''player_id'' \<noteq> field pl ''player_id'') (contents s News),
                   Rosters := filter (\<lambda>r. field r ''player_id'' \<noteq> field pl ''player_id'') (contents s Rosters),
                   Waiver_suggestions := filter (\<lambda>r. field r ''player_id'' \<noteq> field pl ''player_id'') (contents s Waiver_suggestions))\<rparr>)"
proof -
  let ?v = "field pl ''player_id''"
  let ?p = "\<lambda>r. field r ''player_id'' = ?v"
  let ?doomed = "filter ?p (contents s Players)"
  have ne: "?doomed \<noteq> []" using pl by (auto simp add: filter_empty_conv)
  have vals: "set (map (\<lambda>x. field x ''player_id'') ?doomed) = {?v}"
    using pl by auto
  have refers: "(\<lambda>r. field r ''player_id'' \<noteq> VNull
                  \<and> field r ''player_id'' \<in> set (map (\<lambda>x. field x ''player_id'') ?doomed))
                = ?p"
    unfolding vals using key by auto
  have "cascade_delete (Suc (length all_tables)) schema_catalog Players ?p (contents s)
          = Inr ((contents s)
                  (Players := filter (\<lambda>r. \<not> ?p r) (contents s Players),
                   News := filter (\<lambda>r. \<not> ?p r) (contents s News),
                   Rosters := filter (\<lambda>r. \<not> ?p r) (contents s Rosters),
                   Waiver_suggestions := filter (\<lambda>r. \<not> ?p r) (contents s Waiver_suggestions)))"
    unfolding length_all_tables by (rule cascade_from_players [of ?p "contents s" ?p 11, OF ne refers])
  then show ?thesis
    using cat schema_catalog_total [of Players]
    by (auto simp add: delete_where_def)
qed

lemma reachable_row:
  assumes "reachable s" and "r \<in> set (contents s t)"
  obtains d where "schema_catalog t = Some d" and "map fst r = map col_name (columns d)"
    and "row_error d r = None" and "distinct (map (key_of d) (contents s t))"
proof -
  from reachable_consistent [OF assms(1)] have c: "consistent s" .
  from schema_catalog_total [of t] obtain d where d: "schema_catalog t = Some d" by auto
  with c assms(2) show thesis
    using that [of d] by (auto simp add: consistent_def list_all_iff well_formed_def)
qed

text \<open>
  Claim C9. In every state of the storage, deleting a player (by its \<^verbatim>\<open>player_id\<close>) succeeds
  and leaves in \<^verbatim>\<open>news\<close>, \<^verbatim>\<open>rosters\<close> and \<^verbatim>\<open>waiver_suggestions\<close> exactly the rows whose
  \<^verbatim>\<open>player_id\<close> is another player's, unchanged and in their order; the rows that referenced
  the deleted player are gone.
\<close>

theorem deleting_a_player_cascades:
  assumes "reachable s" and "pl \<in> set (contents s Players)"
  shows "\<exists>s'. delete_where Players (\<lambda>r. field r ''player_id'' = field pl ''player_id'') s = Inr s'
          \<and> contents s' News
              = filter (\<lambda>r. field r ''player_id'' \<noteq> field pl ''player_id'') (contents s News)
          \<and> contents s' Rosters
              = filter (\<lambda>r. field r ''player_id'' \<noteq> field pl ''player_id'') (contents s Rosters)
          \<and> contents s' Waiver_suggestions
              = filter (\<lambda>r. field r ''player_id'' \<noteq> field pl ''player_id'')
                  (contents s Waiver_suggestions)
          \<and> contents s' Players
              = filter (\<lambda>r. field r ''player_id'' \<noteq> field pl ''player_id'') (contents s Players)"
proof -
  from reachable_consistent [OF assms(1)] have cat: "catalog s = schema_catalog"
    by (simp add: consistent_def)
  from assms obtain d where d: "schema_catalog Players = Some d" and ok: "row_error d pl = None"
    by (rule reachable_row)
  from d have d_eq: "d = players_def" by (simp add: schema_catalog_eq)
  have "col ''player_id'' T_text \<in> set (columns d)" "is_not_null d (col ''player_id'' T_text)"
    by (simp_all add: d_eq players_def_def is_not_null_def column_defs)
  with row_error_NoneD(2) [OF ok] have key: "field pl ''player_id'' \<noteq> VNull"
    by (force simp add: column_defs)
  show ?thesis
    unfolding delete_player_cascades [OF cat assms(2) key] by simp
qed

lemma league_db_reachable: "reachable league_db"
proof -
  let ?s0 = "run_script schema_sql empty_db"
  let ?s1 = "\<lparr>catalog = schema_catalog, contents = (\<lambda>t. [])(Players := [jets_qb])\<rparr>"
  let ?s2 = "\<lparr>catalog = schema_catalog, contents = (\<lambda>t. [])(Players := [jets_qb, bills_qb])\<rparr>"
  let ?s3 = "\<lparr>catalog = schema_catalog,
             contents = (\<lambda>t. [])(Players := [jets_qb, bills_qb], News := [jets_news])\<rparr>"
  have "insert_row example_session Players jets_qb ?s0 = Inr ?s1"
    by (simp add: created_eq schema_catalog_eq jets_qb_def statement_defs players_def_def
        column_defs)
  with reachable.created have 1: "reachable ?s1" by (rule reachable.inserted)
  have "insert_row example_session Players bills_qb ?s1 = Inr ?s2"
    by (simp add: schema_catalog_eq jets_qb_def bills_qb_def statement_defs players_def_def
        column_defs)
  with 1 have 2: "reachable ?s2" by (rule reachable.inserted)
  have "insert_row example_session News jets_news ?s2 = Inr ?s3"
    by (simp add: schema_catalog_eq jets_qb_def bills_qb_def jets_news_def statement_defs
        news_def_def column_defs)
  with 2 have 3: "reachable ?s3" by (rule reachable.inserted)
  have "insert_row example_session News bills_news ?s3 = Inr league_db"
    by (simp add: schema_catalog_eq jets_qb_def bills_qb_def jets_news_def bills_news_def
        league_db_def statement_defs news_def_def column_defs)
  with 3 show ?thesis by (rule reachable.inserted)
qed

theorem deleting_a_player_cascades_witness:
  "reachable league_db
   \<and> jets_qb \<in> set (contents league_db Players)
   \<and> (\<exists>s'. delete_where Players (\<lambda>r. field r ''player_id'' = field jets_qb ''player_id'')
              league_db = Inr s'
          \<and> contents s' News = [bills_news]
          \<and> contents s' Rosters = []
          \<and> contents s' Waiver_suggestions = []
          \<and> contents s' Players = [bills_qb])"
proof -
  have m: "jets_qb \<in> set (contents league_db Players)"
    by (simp add: league_db_def)
  have f: "filter (\<lambda>r. field r ''player_id'' \<noteq> field jets_qb ''player_id'')
             (contents league_db News) = [bills_news]"
    "filter (\<lambda>r. field r ''player_id'' \<noteq> field jets_qb ''player_id'')
             (contents league_db Players) = [bills_qb]"
    "contents league_db Rosters = []" "contents league_db Waiver_suggestions = []"
    by (simp_all add: league_db_def jets_qb_def bills_qb_def jets_news_def bills_news_def
        field_def)
  from deleting_a_player_cascades [OF league_db_reachable m] f league_db_reachable m
  show ?thesis by simp
qed

subsection \<open>The implied win probability\<close>





subsection \<open>Stale predictions\<close>

lemma find_key:
  assumes "distinct (map k rows)" and "r \<in> set rows" and "\<And>x. x \<in> set rows \<Longrightarrow> P x \<longleftrightarrow> k x = k r"
  shows "find P rows = Some r"
proof -
  have "P r" using assms(2,3) by simp
  with assms(2) obtain r' where f: "find P rows = Some r'"
    by (cases "find P rows") (auto simp add: find_None_iff)
  then have "P r'" "r' \<in> set rows"
    by (auto simp add: find_Some_iff)
  with assms(3) have "k r' = k r" by simp
  with assms(1,2) \<open>r' \<in> set rows\<close> have "r' = r"
    by (auto simp add: distinct_map inj_on_def)
  with f show ?thesis by simp
qed

text \<open>
  Claim C6. In every state of the storage, for every row of \<^verbatim>\<open>pred_cache\<close> whose
  \<^verbatim>\<open>valid_until\<close> is at or before the current time, the read of a fresh prediction by that
  row's (pk, sk) answers with no prediction, although the row is there, and returns the
  storage as it found it: nothing is recomputed or written.
\<close>

theorem stale_prediction_is_a_miss:
  assumes "reachable s" and "r \<in> set (contents s Pred_cache)"
    and "field r ''pk'' = VText pk" and "field r ''sk'' = VText sk"
    and "field r ''valid_until'' = VTimestamptz expiry" and "expiry \<le> current_time"
  shows "get_fresh_prediction current_time pk sk s = (None, s)"
proof -
  from assms(1,2) obtain d where d: "schema_catalog Pred_cache = Some d"
    and dist: "distinct (map (key_of d) (contents s Pred_cache))"
    by (rule reachable_row)
  from d have k: "key_of d x = [field x ''pk'', field x ''sk'']" for x
    by (auto simp add: schema_catalog_eq key_of_def pred_cache_def_def)
  have "find (\<lambda>x. field x ''pk'' = VText pk \<and> field x ''sk'' = VText sk) (contents s Pred_cache)
          = Some r"
    by (rule find_key [OF dist assms(2)]) (simp add: k assms(3,4))
  with assms(5,6) show ?thesis
    by (simp add: get_fresh_prediction_def)
qed

theorem stale_prediction_is_a_miss_witness:
  "reachable cache_db
   \<and> stale_entry \<in> set (contents cache_db Pred_cache)
   \<and> field stale_entry ''valid_until'' = VTimestamptz 500
   \<and> (500 :: int) \<le> 1000
   \<and> get_fresh_prediction 1000 ''w3'' ''p1'' cache_db = (None, cache_db)
   \<and> get_fresh_prediction 500 ''w3'' ''p1'' cache_db = (None, cache_db)"
proof -
  have "insert_row example_session Pred_cache stale_entry (run_script schema_sql empty_db)
          = Inr cache_db"
    by (simp add: created_eq schema_catalog_eq stale_entry_def cache_db_def statement_defs
        pred_cache_def_def column_defs)
  with reachable.created have r: "reachable cache_db" by (rule reachable.inserted)
  have m: "stale_entry \<in> set (contents cache_db Pred_cache)"
    by (simp add: cache_db_def)
  have k: "field stale_entry ''pk'' = VText ''w3''" "field stale_entry ''sk'' = VText ''p1''"
    and v: "field stale_entry ''valid_until'' = VTimestamptz 500"
    by (simp_all add: stale_entry_def field_def)
  from stale_prediction_is_a_miss [OF r m k v, of 1000]
    stale_prediction_is_a_miss [OF r m k v, of 500] r m v
  show ?thesis by simp
qed

subsection \<open>The run ledger\<close>

lemma ledger_reachable: "ledger s \<Longrightarrow> reachable s"
proof (induction rule: ledger.induct)
  case fresh
  show ?case by (rule reachable.created)
next
  case (opened s e stage season week s')
  then show ?case by (auto simp add: open_run_def intro: reachable.inserted)
next
  case (closed s ended run_id oc metrics s')
  then show ?case by (auto simp add: close_run_def intro: reachable.updated)
qed

lemma field_set_fields:
  "field (set_fields a r) c =
     (case map_of r c of
        None \<Rightarrow> VNull
      | Some v \<Rightarrow> (case map_of a c of None \<Rightarrow> v | Some e \<Rightarrow> e r))"
proof -
  have "map_of (map (\<lambda>(k, v). (k, g k v)) xs) c = map_option (g c) (map_of xs c)"
    for g :: "string \<Rightarrow> sql_value \<Rightarrow> sql_value" and xs
    by (induction xs) auto
  then show ?thesis
    by (simp add: field_def set_fields_def split: option.splits)
qed

lemma opened_run_settled:
  "run_settled (new_row e model_runs_def
      [(''season'', season), (''week'', week), (''stage'', VText stage)])"
  unfolding run_settled_def field_new_row
  by (simp add: model_runs_def_def column_defs)

lemma closed_run_settled:
  assumes "map fst r = map col_name (columns model_runs_def)"
  shows "run_settled (set_fields
      [(''status'', \<lambda>r. VText (outcome_text oc)), (''ended_at'', \<lambda>r. VTimestamptz ended),
       (''metrics'', \<lambda>r. metrics)] r)"
proof -
  have "''status'' \<in> set (map fst r)" "''ended_at'' \<in> set (map fst r)"
    unfolding assms by (simp_all add: model_runs_def_def column_defs)
  then obtain v w where "map_of r ''status'' = Some v" "map_of r ''ended_at'' = Some w"
    by (metis domD dom_map_of_conv_image_fst set_map)
  then show ?thesis
    unfolding run_settled_def field_set_fields
    by (cases oc) simp_all
qed

lemma ledger_settled:
  assumes "ledger s" and "r \<in> set (contents s Model_runs)"
  shows "run_settled r"
  using assms
proof (induction arbitrary: r rule: ledger.induct)
  case fresh
  then show ?case by (simp add: created_contents)
next
  case (opened s e stage season week s')
  from reachable_consistent [OF ledger_reachable [OF opened(1)]]
  have cat: "catalog s Model_runs = Some model_runs_def"
    by (simp add: consistent_def schema_catalog_eq)
  from opened(2) obtain d where "catalog s Model_runs = Some d"
    and "s' = s\<lparr>contents := (contents s)(Model_runs := contents s Model_runs
           @ [new_row e d [(''season'', season), (''week'', week), (''stage'', VText stage)]])\<rparr>"
    unfolding open_run_def by (rule insert_row_Inr)
  with cat opened(3,4) show ?case
    by (auto simp add: opened_run_settled)
next
  case (closed s ended run_id oc metrics s')
  let ?p = "\<lambda>r. field r ''run_id'' = VUuid run_id \<and> field r ''status'' = VText ''started''"
  let ?a = "[(''status'', \<lambda>r. VText (outcome_text oc)), (''ended_at'', \<lambda>r. VTimestamptz ended),
             (''metrics'', \<lambda>r. metrics)]"
  from closed(2) obtain d where
    s': "s' = s\<lparr>contents := (contents s)(Model_runs :=
               map (\<lambda>r. if ?p r then set_fields ?a r else r) (contents s Model_runs))\<rparr>"
    unfolding close_run_def by (rule update_rows_Inr)
  from closed(4) s' obtain old where old: "old \<in> set (contents s Model_runs)"
    and r: "r = (if ?p old then set_fields ?a old else old)"
    by auto
  show ?case
  proof (cases "?p old")
    case True
    from ledger_reachable [OF closed(1)] old obtain d where "schema_catalog Model_runs = Some d"
      and "map fst old = map col_name (columns d)"
      by (rule reachable_row)
    then have "map fst old = map col_name (columns model_runs_def)"
      by (simp add: schema_catalog_eq)
    from closed_run_settled [OF this] True r show ?thesis by simp
  next
    case False
    with r closed(3) [OF old] show ?thesis by simp
  qed
qed

text \<open>
  Claim C7. In every state of the run ledger reached by opening and closing runs, no row of
  \<^verbatim>\<open>model_runs\<close> has status \<^verbatim>\<open>started\<close> together with an \<^verbatim>\<open>ended_at\<close> that is not null, and
  a row whose \<^verbatim>\<open>ended_at\<close> is not null has the status \<^verbatim>\<open>success\<close> or \<^verbatim>\<open>failed\<close>: only the
  closing transition sets \<^verbatim>\<open>ended_at\<close>.
\<close>

theorem started_run_has_no_end:
  assumes "ledger s" and "r \<in> set (contents s Model_runs)"
  shows "\<not> (field r ''status'' = VText ''started'' \<and> field r ''ended_at'' \<noteq> VNull)
       \<and> (field r ''ended_at'' \<noteq> VNull \<longrightarrow>
            field r ''status'' = VText ''success'' \<or> field r ''status'' = VText ''failed'')"
  using ledger_settled [OF assms] by (auto simp add: run_settled_def)

theorem started_run_has_no_end_witness:
  "ledger started_db \<and> ledger closed_db
   \<and> started_run \<in> set (contents started_db Model_runs)
   \<and> closed_run \<in> set (contents closed_db Model_runs)
   \<and> field started_run ''status'' = VText ''started'' \<and> field started_run ''ended_at'' = VNull
   \<and> field closed_run ''ended_at'' = VTimestamptz 2000
   \<and> field closed_run ''status'' = VText ''success''"
proof -
  have "open_run example_session ''ingest'' (VInt 2025) (VInt 3)
          (run_script schema_sql empty_db) = Inr started_db"
    by (simp add: open_run_def created_eq schema_catalog_eq started_run_def started_db_def
        statement_defs model_runs_def_def column_defs example_session_def)
  with ledger.fresh have o: "ledger started_db" by (rule ledger.opened)
  have "close_run 2000 ''run-1'' Success VNull started_db = Inr closed_db"
    by (simp add: close_run_def schema_catalog_eq started_run_def closed_run_def started_db_def
        closed_db_def statement_defs model_runs_def_def column_defs referencing_def
        all_tables_def table_defs)
  with o have c: "ledger closed_db" by (rule ledger.closed)
  have ms: "started_run \<in> set (contents started_db Model_runs)"
    and mc: "closed_run \<in> set (contents closed_db Model_runs)"
    by (simp_all add: started_db_def closed_db_def)
  have e: "field closed_run ''ended_at'' = VTimestamptz 2000"
    and st: "field started_run ''status'' = VText ''started''"
    and sc: "field closed_run ''status'' = VText ''success''"
    by (simp_all add: closed_run_def started_run_def field_def)
  from started_run_has_no_end [OF c mc] started_run_has_no_end [OF o ms] o c ms mc e st sc
  show ?thesis by auto
qed

end
